theory Spec2Isabelle
  imports Main "HOL-Library.Word" "HOL-Library.Sublist"
begin

section \<open>Strings\<close>

text \<open>
  \<open>std::string\<close> is a \<open>char list\<close>. \<open>std::string::find\<close> and
  \<open>find_first_of\<close> with a single character return the index of its first occurrence,
  or \<open>npos\<close>, which is \<open>None\<close> here. \<open>s.substr(0, n)\<close> is \<open>take n s\<close> and
  \<open>s.substr(p, npos)\<close> with \<open>p \<le> length s\<close> is \<open>drop p s\<close>.
\<close>

definition find_char :: "char \<Rightarrow> string \<Rightarrow> nat option" where
  "find_char c s = (if c \<in> set s then Some (length (takeWhile (\<lambda>x. x \<noteq> c) s)) else None)"

text \<open>
  Modelled from the spec: \<open>Warhead::String::Trim\<close> (declared in Util.h, which is not
  part of the sources at hand). The spec says it trims leading and trailing whitespace;
  whitespace is what \<open>std::isspace\<close> accepts in the classic locale.
\<close>

definition isspace :: "char \<Rightarrow> bool" where
  "isspace c \<longleftrightarrow>
     c = CHR 0x20 \<or> c = CHR 0x09 \<or> c = CHR 0x0A \<or> c = CHR 0x0B \<or> c = CHR 0x0C \<or> c = CHR 0x0D"

definition Trim :: "string \<Rightarrow> string" where
  "Trim s = rev (dropWhile isspace (rev (dropWhile isspace s)))"

text \<open>
  Modelled from the spec: \<open>Warhead::StringTo<bool>\<close> (StringConvert.h, not part of the
  sources at hand). The spec says it accepts the canonical true/false/1/0 forms. The
  accessors below take the conversion as a parameter; this instance is used where a
  concrete conversion is evaluated.
\<close>

definition StringTo_bool :: "string \<Rightarrow> bool option" where
  "StringTo_bool s =
     (if s = ''1'' \<or> s = ''true'' then Some True
      else if s = ''0'' \<or> s = ''false'' then Some False
      else None)"

section \<open>The option table\<close>

text \<open>
  \<open>std::unordered_map<std::string, std::string>\<close> is an association list. \<open>find\<close> is
  \<open>map_of\<close>, \<open>erase(key)\<close> removes the entry of that key, \<open>emplace\<close> adds an entry
  only when the key is not present, \<open>clear\<close> is the empty list. The order of the list is
  the iteration order, which C++ leaves unspecified.
\<close>

type_synonym options = "(string \<times> string) list"

definition erase :: "string \<Rightarrow> options \<Rightarrow> options" where
  "erase k m = filter (\<lambda>p. fst p \<noteq> k) m"

definition emplace :: "string \<Rightarrow> string \<Rightarrow> options \<Rightarrow> options" where
  "emplace k v m = (case map_of m k of None \<Rightarrow> m @ [(k, v)] | Some _ \<Rightarrow> m)"

text \<open>
  The one exception class of the source, \<open>ConfigException\<close>, is thrown with three
  messages: the file cannot be opened, a line cannot be read (with its number), the file
  has no entry.
\<close>

datatype config_exception =
    FileOpenError string
  | LineReadError "32 word" string
  | EmptyFileError string

text \<open>What \<open>PrintError\<close> and \<open>LOG_ERROR\<close> are called with.\<close>

datatype diagnostic =
    MalformedLine "32 word" string
  | DuplicateKey string string
  | OptionExists string string
  | LoadError config_exception
  | MissingName string string
  | BadValue string string

text \<open>
  The globals of the anonymous namespace: \<open>_filename\<close> and \<open>_configOptions\<close>. The
  diagnostics logged so far and the paths an \<open>std::ifstream\<close> was constructed on are
  kept as traces. The mutex is not modelled: every operation runs alone.
\<close>

record config =
  filename :: string
  configOptions :: options
  logged :: "diagnostic list"
  opened :: "string list"

definition AddKey :: "string \<Rightarrow> string \<Rightarrow> bool \<Rightarrow> config \<Rightarrow> config" where
  "AddKey optionName optionKey replace st =
     (case map_of (configOptions st) optionName of
        Some second \<Rightarrow>
          if \<not> replace then st\<lparr>logged := logged st @ [OptionExists optionName second]\<rparr>
          else st\<lparr>configOptions := emplace optionName optionKey (erase optionName (configOptions st))\<rparr>
      | None \<Rightarrow> st\<lparr>configOptions := emplace optionName optionKey (configOptions st)\<rparr>)"

section \<open>Parsing a file\<close>

text \<open>
  An opened stream is the list of the outcomes of the successive \<open>std::getline\<close> calls
  made while \<open>in.good()\<close> holds: a line (the last call also sets eofbit), or a failure
  that is not the end of the stream. A path that cannot be opened has no stream.
\<close>

datatype getline_result = Line string | ReadError

type_synonym filesystem = "string \<Rightarrow> getline_result list option"

text \<open>
  What the body of the loop makes of one line, up to the duplicate check: nothing (an
  empty line, a comment, a section header), a malformed line, or an entry and its value.
\<close>

datatype line_kind = Ignored | Malformed | KeyValue string string

definition split_line :: "string \<Rightarrow> line_kind" where
  "split_line raw =
     (let line = Trim raw in
      if line = [] then Ignored
      else if hd line = CHR ''#'' \<or> hd line = CHR ''['' then Ignored
      else
        let line = (case find_char CHR ''#'' line of Some found \<Rightarrow> take found line | None \<Rightarrow> line)
        in case find_char CHR ''='' line of
             None \<Rightarrow> Malformed
           | Some equal_pos \<Rightarrow>
               if equal_pos = length line then Malformed
               else KeyValue (Trim (take equal_pos line))
                      (filter (\<lambda>c. c \<noteq> CHR 0x22) (Trim (drop (equal_pos + 1) line))))"

text \<open>The locals of \<open>ParseFile\<close>, and what it has printed.\<close>

record parse_locals =
  count :: "32 word"
  lineNumber :: "32 word"
  fileConfigs :: options
  printed :: "diagnostic list"

definition IsDuplicateOption :: "string \<Rightarrow> string \<Rightarrow> parse_locals \<Rightarrow> bool \<times> parse_locals" where
  "IsDuplicateOption file confOption s =
     (case map_of (fileConfigs s) confOption of
        Some _ \<Rightarrow> (True, s\<lparr>printed := printed s @ [DuplicateKey confOption file]\<rparr>)
      | None \<Rightarrow> (False, s))"

definition loop_body :: "string \<Rightarrow> string \<Rightarrow> parse_locals \<Rightarrow> parse_locals" where
  "loop_body file raw s =
     (case split_line raw of
        Ignored \<Rightarrow> s
      | Malformed \<Rightarrow> s\<lparr>printed := printed s @ [MalformedLine (lineNumber s) file]\<rparr>
      | KeyValue entry val \<Rightarrow>
          (case IsDuplicateOption file entry s of
             (True, s') \<Rightarrow> s'
           | (False, s') \<Rightarrow>
               s'\<lparr>fileConfigs := emplace entry val (fileConfigs s'), count := count s' + 1\<rparr>))"

fun parse_loop :: "string \<Rightarrow> getline_result list \<Rightarrow> parse_locals \<Rightarrow> (config_exception + unit) \<times> parse_locals" where
  "parse_loop file [] s = (Inr (), s)"
| "parse_loop file (ReadError # rest) s =
     (Inl (LineReadError (lineNumber s + 1) file), s\<lparr>lineNumber := lineNumber s + 1\<rparr>)"
| "parse_loop file (Line raw # rest) s =
     parse_loop file rest (loop_body file raw (s\<lparr>lineNumber := lineNumber s + 1\<rparr>))"

definition parse_start :: parse_locals where
  "parse_start = \<lparr>count = 0, lineNumber = 0, fileConfigs = [], printed = []\<rparr>"

definition ParseFile :: "filesystem \<Rightarrow> string \<Rightarrow> config \<Rightarrow> (config_exception + unit) \<times> config" where
  "ParseFile fs file st0 =
     (let st = st0\<lparr>opened := opened st0 @ [file]\<rparr> in
      case fs file of
        None \<Rightarrow> (Inl (FileOpenError file), st)
      | Some stream \<Rightarrow>
          (case parse_loop file stream parse_start of
             (Inl e, s) \<Rightarrow> (Inl e, st\<lparr>logged := logged st @ printed s\<rparr>)
           | (Inr _, s) \<Rightarrow>
               let st = st\<lparr>logged := logged st @ printed s\<rparr> in
               if count s = 0 then (Inl (EmptyFileError file), st)
               else (Inr (), fold (\<lambda>(entry, key). AddKey entry key True) (fileConfigs s) st)))"

definition LoadFile :: "filesystem \<Rightarrow> string \<Rightarrow> config \<Rightarrow> bool \<times> config" where
  "LoadFile fs file st =
     (case ParseFile fs file st of
        (Inr _, st') \<Rightarrow> (True, st')
      | (Inl e, st') \<Rightarrow> (False, st'\<lparr>logged := logged st' @ [LoadError e]\<rparr>))"

section \<open>ConfigMgr\<close>

definition LoadInitial :: "filesystem \<Rightarrow> string \<Rightarrow> config \<Rightarrow> bool \<times> config" where
  "LoadInitial fs file st = LoadFile fs file (st\<lparr>configOptions := []\<rparr>)"

definition LoadAdditionalFile :: "filesystem \<Rightarrow> string \<Rightarrow> config \<Rightarrow> bool \<times> config" where
  "LoadAdditionalFile fs file st = LoadFile fs file st"

text \<open>
  The generic accessor. \<open>Warhead::StringTo<T>\<close> and \<open>Warhead::ToString\<close> are not part
  of the sources at hand and are parameters: a conversion that may fail, and a printer.
\<close>

definition GetValueDefault ::
  "(string \<Rightarrow> 'a option) \<Rightarrow> ('a \<Rightarrow> string) \<Rightarrow> string \<Rightarrow> 'a \<Rightarrow> bool \<Rightarrow> config \<Rightarrow> 'a \<times> config" where
  "GetValueDefault StringTo ToString name def showLogs st =
     (case map_of (configOptions st) name of
        None \<Rightarrow>
          (def, if showLogs then st\<lparr>logged := logged st @ [MissingName name (ToString def)]\<rparr> else st)
      | Some second \<Rightarrow>
          (case StringTo second of
             None \<Rightarrow>
               (def, if showLogs then st\<lparr>logged := logged st @ [BadValue name (ToString def)]\<rparr> else st)
           | Some v \<Rightarrow> (v, st)))"

definition GetValueDefault_string :: "string \<Rightarrow> string \<Rightarrow> bool \<Rightarrow> config \<Rightarrow> string \<times> config" where
  "GetValueDefault_string name def showLogs st =
     (case map_of (configOptions st) name of
        None \<Rightarrow> (def, if showLogs then st\<lparr>logged := logged st @ [MissingName name def]\<rparr> else st)
      | Some second \<Rightarrow> (second, st))"

definition GetOption ::
  "(string \<Rightarrow> 'a option) \<Rightarrow> ('a \<Rightarrow> string) \<Rightarrow> string \<Rightarrow> 'a \<Rightarrow> bool \<Rightarrow> config \<Rightarrow> 'a \<times> config" where
  "GetOption StringTo ToString name def showLogs st =
     GetValueDefault StringTo ToString name def showLogs st"

definition GetOption_string :: "string \<Rightarrow> string \<Rightarrow> bool \<Rightarrow> config \<Rightarrow> string \<times> config" where
  "GetOption_string name def showLogs st = GetValueDefault_string name def showLogs st"

definition GetOption_bool ::
  "(string \<Rightarrow> bool option) \<Rightarrow> string \<Rightarrow> bool \<Rightarrow> bool \<Rightarrow> config \<Rightarrow> bool \<times> config" where
  "GetOption_bool StringTo name def showLogs st =
     (case GetValueDefault_string name (if def then ''1'' else ''0'') showLogs st of
        (val, st') \<Rightarrow>
          (case StringTo val of
             None \<Rightarrow>
               (def, if showLogs
                     then st'\<lparr>logged := logged st' @ [BadValue name (if def then ''true'' else ''false'')]\<rparr>
                     else st')
           | Some boolVal \<Rightarrow> (boolVal, st')))"

text \<open>
  \<open>optionName.compare(0, name.length(), name)\<close> compares the first \<open>name.length()\<close>
  characters of \<open>optionName\<close> (all of it when it is shorter) with \<open>name\<close>; position 0
  is never out of range. It is 0 exactly when the two are equal.
\<close>

definition compare_is_zero :: "string \<Rightarrow> nat \<Rightarrow> string \<Rightarrow> bool" where
  "compare_is_zero optionName len name \<longleftrightarrow> take len optionName = name"

definition GetKeysByString :: "string \<Rightarrow> config \<Rightarrow> string list" where
  "GetKeysByString name st =
     map fst (filter (\<lambda>(optionName, key). compare_is_zero optionName (length name) name) (configOptions st))"

definition GetFilename :: "config \<Rightarrow> string" where
  "GetFilename st = filename st"

definition GetConfigPath :: "config \<Rightarrow> string" where
  "GetConfigPath st = ''configs/''"

definition Configure :: "string \<Rightarrow> config \<Rightarrow> config" where
  "Configure initFileName st = st\<lparr>filename := initFileName\<rparr>"

definition LoadAppConfigs :: "filesystem \<Rightarrow> config \<Rightarrow> bool \<times> config" where
  "LoadAppConfigs fs st =
     (case LoadInitial fs (filename st @ ''.dist'') st of
        (ok, st') \<Rightarrow> if \<not> ok then (False, st') else (True, st'))"

text \<open>The loop at the end of \<open>ParseFile\<close>: every entry of the file goes through \<open>AddKey\<close>.\<close>

abbreviation merge_file :: "options \<Rightarrow> config \<Rightarrow> config" where
  "merge_file xs st \<equiv> fold (\<lambda>(entry, key). AddKey entry key True) xs st"

text \<open>What the loop keeps true of its locals, as long as the counter does not wrap.\<close>

definition locals_inv :: "parse_locals \<Rightarrow> bool" where
  "locals_inv s \<longleftrightarrow> count s = of_nat (length (fileConfigs s)) \<and> distinct (map fst (fileConfigs s))"

text \<open>Two states of the loop that differ at most in what has been printed.\<close>

definition same_core :: "parse_locals \<Rightarrow> parse_locals \<Rightarrow> bool" where
  "same_core s t \<longleftrightarrow> count s = count t \<and> lineNumber s = lineNumber t \<and> fileConfigs s = fileConfigs t"

text \<open>A file system and a table to run the operations on.\<close>

definition example_fs :: filesystem where
  "example_fs path =
     (if path = ''world.conf.dist'' then
        Some [Line ''# comment'', Line ''[Section]'', Line ''Port = 8085'',
              Line ''Name = \"MyServer\"   # trailing comment'', Line ''Port = 9000'', Line '''']
      else if path = ''extra.conf'' then
        Some [Line ''Port = 9000'', Line ''  Motd =  hello \"world\"  '', Line '''']
      else if path = ''broken.conf'' then
        Some [Line ''Port = 1'', ReadError]
      else if path = ''comments.conf'' then
        Some [Line ''# nothing here'', Line ''[Section]'', Line ''novalue'', Line '''']
      else if path = ''trailing.conf'' then
        Some [Line ''key='', Line '''']
      else None)"

definition example_config :: config where
  "example_config = \<lparr>filename = ''world.conf'', configOptions = [(''Port'', ''1234'')], logged = [], opened = []\<rparr>"

section \<open>The table operations\<close>

lemma map_of_erase: "map_of (erase k m) k' = (if k' = k then None else map_of m k')"
  by (induction m) (auto simp: erase_def)

lemma map_of_emplace:
  "map_of (emplace k v m) k' = (if k' = k \<and> map_of m k = None then Some v else map_of m k')"
  by (auto simp: emplace_def map_add_def split: option.splits)

lemma distinct_erase: "distinct (map fst m) \<Longrightarrow> distinct (map fst (erase k m))"
  by (simp add: erase_def distinct_map_filter)

lemma distinct_emplace: "distinct (map fst m) \<Longrightarrow> distinct (map fst (emplace k v m))"
  by (auto simp: emplace_def map_of_eq_None_iff split: option.splits)

lemma AddKey_replace_lookup:
  "map_of (configOptions (AddKey k v True st)) k' =
     (if k' = k then Some v else map_of (configOptions st) k')"
  by (auto simp: AddKey_def map_of_emplace map_of_erase split: option.splits)

text \<open>No option name appears twice in the live table.\<close>

lemma AddKey_distinct:
  "distinct (map fst (configOptions st)) \<Longrightarrow> distinct (map fst (configOptions (AddKey k v r st)))"
  by (auto simp: AddKey_def distinct_emplace distinct_erase split: option.splits)

lemma AddKey_other_fields:
  "filename (AddKey k v True st) = filename st \<and> logged (AddKey k v True st) = logged st
     \<and> opened (AddKey k v True st) = opened st"
  by (auto simp: AddKey_def split: option.splits)

lemma merge_absent:
  "k \<notin> fst ` set xs \<Longrightarrow> map_of (configOptions (merge_file xs st)) k = map_of (configOptions st) k"
  by (induction xs arbitrary: st) (auto simp: AddKey_replace_lookup)

lemma merge_present:
  "distinct (map fst xs) \<Longrightarrow> map_of xs k = Some v \<Longrightarrow>
     map_of (configOptions (merge_file xs st)) k = Some v"
proof (induction xs arbitrary: st)
  case Nil
  then show ?case by simp
next
  case (Cons p xs)
  obtain a b where p: "p = (a, b)" by (cases p)
  show ?case
  proof (cases "k = a")
    case True
    with Cons.prems p have "v = b" "k \<notin> fst ` set xs" by auto
    then show ?thesis using p True by (simp add: merge_absent AddKey_replace_lookup)
  next
    case False
    with Cons p show ?thesis by auto
  qed
qed

lemma merge_other_fields:
  "filename (merge_file xs st) = filename st \<and> logged (merge_file xs st) = logged st
     \<and> opened (merge_file xs st) = opened st"
  by (induction xs arbitrary: st) (auto simp: AddKey_other_fields)

lemma merge_distinct:
  "distinct (map fst (configOptions st)) \<Longrightarrow> distinct (map fst (configOptions (merge_file xs st)))"
  by (induction xs arbitrary: st) (auto simp: AddKey_distinct)

section \<open>Key enumeration\<close>

lemma compare_is_zero_prefix:
  "compare_is_zero optionName (length name) name \<longleftrightarrow> prefix name optionName"
  unfolding compare_is_zero_def
  by (metis append_eq_conv_conj prefix_def)

text \<open>
  C8: for every prefix and table, \<open>GetKeysByString\<close> returns exactly the option names
  of the table that start with the prefix, each as often as the table holds it (once, when
  the names of the table are distinct). A name shorter than the prefix is never returned,
  and the result is empty when no name matches. The order is the iteration order of the
  table.
\<close>

theorem GetKeysByString_prefix:
  "GetKeysByString name st = filter (prefix name) (map fst (configOptions st))
   \<and> set (GetKeysByString name st) = {k \<in> fst ` set (configOptions st). prefix name k}
   \<and> (\<forall>k \<in> fst ` set (configOptions st). length k < length name \<longrightarrow> k \<notin> set (GetKeysByString name st))
   \<and> ((\<forall>k \<in> fst ` set (configOptions st). \<not> prefix name k) \<longrightarrow> GetKeysByString name st = [])
   \<and> (distinct (map fst (configOptions st)) \<longrightarrow> distinct (GetKeysByString name st))"
proof -
  have eq: "GetKeysByString name st = filter (prefix name) (map fst (configOptions st))"
    by (simp add: GetKeysByString_def compare_is_zero_prefix filter_map comp_def case_prod_unfold)
  have short: "\<And>k. length k < length name \<Longrightarrow> \<not> prefix name k"
    by (auto dest: prefix_length_le)
  show ?thesis
    unfolding eq using short by (auto simp: filter_empty_conv)
qed

theorem GetKeysByString_prefix_witness:
  "GetKeysByString ''Log.'' \<lparr>filename = ''w.conf'',
       configOptions = [(''Log.a'', ''1''), (''Port'', ''8085''), (''Log'', ''x''), (''Log.b'', ''2'')],
       logged = [], opened = []\<rparr> = [''Log.a'', ''Log.b'']
   \<and> GetKeysByString ''Zz'' \<lparr>filename = ''w.conf'',
       configOptions = [(''Log.a'', ''1''), (''Port'', ''8085''), (''Log'', ''x''), (''Log.b'', ''2'')],
       logged = [], opened = []\<rparr> = []"
  using GetKeysByString_prefix [of "''Log.''" "\<lparr>filename = ''w.conf'',
       configOptions = [(''Log.a'', ''1''), (''Port'', ''8085''), (''Log'', ''x''), (''Log.b'', ''2'')],
       logged = [], opened = []\<rparr>"]
    GetKeysByString_prefix [of "''Zz''" "\<lparr>filename = ''w.conf'',
       configOptions = [(''Log.a'', ''1''), (''Port'', ''8085''), (''Log'', ''x''), (''Log.b'', ''2'')],
       logged = [], opened = []\<rparr>"]
  by simp

section \<open>The composite load\<close>

text \<open>
  C9: \<open>LoadAppConfigs\<close> is one initial load of the configured filename with
  \<open>.dist\<close> appended, and returns what that load returns. The only stream it opens is
  on that path; the configured filename itself is not opened.
\<close>

theorem LoadAppConfigs_dist_only:
  "LoadAppConfigs fs st = LoadInitial fs (filename st @ ''.dist'') st
   \<and> opened (snd (LoadAppConfigs fs st)) = opened st @ [filename st @ ''.dist'']
   \<and> filename st \<notin> set (drop (length (opened st)) (opened (snd (LoadAppConfigs fs st))))"
proof -
  have a: "LoadAppConfigs fs st = LoadInitial fs (filename st @ ''.dist'') st"
    by (simp add: LoadAppConfigs_def split: prod.splits)
  have b: "opened (snd (LoadInitial fs path st)) = opened st @ [path]" for path
    by (simp add: LoadInitial_def LoadFile_def ParseFile_def Let_def merge_other_fields
             split: prod.splits option.splits sum.splits)
  show ?thesis by (simp add: a b)
qed

section \<open>Typed accessors\<close>

text \<open>
  C10: for every conversion, name, default and table, the value \<open>GetOption\<close> returns is
  the same with \<open>showLogs\<close> true and false, for the generic accessor, the string
  specialization and the bool specialization. No accessor changes the table.
\<close>

theorem GetOption_showLogs_irrelevant:
  "fst (GetOption StringTo ToString name def True st) = fst (GetOption StringTo ToString name def False st)
   \<and> fst (GetOption_string name sdef True st) = fst (GetOption_string name sdef False st)
   \<and> fst (GetOption_bool StringTo_b name bdef True st) = fst (GetOption_bool StringTo_b name bdef False st)
   \<and> configOptions (snd (GetOption StringTo ToString name def showLogs st)) = configOptions st
   \<and> configOptions (snd (GetOption_string name sdef showLogs st)) = configOptions st
   \<and> configOptions (snd (GetOption_bool StringTo_b name bdef showLogs st)) = configOptions st"
  by (simp add: GetOption_def GetOption_string_def GetOption_bool_def GetValueDefault_def
        GetValueDefault_string_def split: option.splits prod.splits)

text \<open>
  C6: the accessors are total. When the name is absent each returns the default it was
  given; when the name is present the generic accessor returns the converted value if the
  stored string converts and the default if not, the string specialization returns the
  stored string, and the bool specialization returns the converted value if the stored
  string converts and the default if not. For the bool specialization this needs that the
  texts of its own defaults, 1 and 0, convert to true and false.
\<close>

theorem GetOption_default_or_converted:
  assumes "StringTo_b ''1'' = Some True" and "StringTo_b ''0'' = Some False"
  shows "(map_of (configOptions st) name = None \<longrightarrow>
            fst (GetOption StringTo ToString name def showLogs st) = def
          \<and> fst (GetOption_string name sdef showLogs st) = sdef
          \<and> fst (GetOption_bool StringTo_b name bdef showLogs st) = bdef)
       \<and> (\<forall>s. map_of (configOptions st) name = Some s \<longrightarrow>
            fst (GetOption StringTo ToString name def showLogs st)
              = (case StringTo s of None \<Rightarrow> def | Some v \<Rightarrow> v)
          \<and> fst (GetOption_string name sdef showLogs st) = s
          \<and> fst (GetOption_bool StringTo_b name bdef showLogs st)
              = (case StringTo_b s of None \<Rightarrow> bdef | Some b \<Rightarrow> b))"
  using assms
  by (auto simp: GetOption_def GetOption_string_def GetOption_bool_def GetValueDefault_def
        GetValueDefault_string_def split: option.splits prod.splits)

theorem GetOption_default_or_converted_witness:
  "StringTo_bool ''1'' = Some True \<and> StringTo_bool ''0'' = Some False
   \<and> fst (GetOption_bool StringTo_bool ''flag'' False True
        \<lparr>filename = ''w.conf'', configOptions = [(''flag'', ''notabool'')], logged = [], opened = []\<rparr>) = False
   \<and> fst (GetOption_bool StringTo_bool ''flag'' True True
        \<lparr>filename = ''w.conf'', configOptions = [(''flag'', ''notabool'')], logged = [], opened = []\<rparr>) = True
   \<and> fst (GetOption_bool StringTo_bool ''flag'' False True
        \<lparr>filename = ''w.conf'', configOptions = [(''flag'', ''1'')], logged = [], opened = []\<rparr>) = True
   \<and> fst (GetOption_bool StringTo_bool ''missing'' True True
        \<lparr>filename = ''w.conf'', configOptions = [(''flag'', ''1'')], logged = [], opened = []\<rparr>) = True"
proof -
  have h1: "StringTo_bool ''1'' = Some True" by (simp add: StringTo_bool_def)
  have h0: "StringTo_bool ''0'' = Some False" by (simp add: StringTo_bool_def)
  have n: "StringTo_bool ''notabool'' = None" by (simp add: StringTo_bool_def)
  show ?thesis
    using h1 h0 n
      GetOption_default_or_converted [OF h1 h0, where StringTo = StringTo_bool
        and ToString = "\<lambda>b. if b then ''1'' else ''0''" and def = False and sdef = "''x''" and name = "''flag''" and bdef = False and showLogs = True
        and st = "\<lparr>filename = ''w.conf'', configOptions = [(''flag'', ''notabool'')], logged = [], opened = []\<rparr>"]
      GetOption_default_or_converted [OF h1 h0, where StringTo = StringTo_bool
        and ToString = "\<lambda>b. if b then ''1'' else ''0''" and def = False and sdef = "''x''" and name = "''flag''" and bdef = True and showLogs = True
        and st = "\<lparr>filename = ''w.conf'', configOptions = [(''flag'', ''notabool'')], logged = [], opened = []\<rparr>"]
      GetOption_default_or_converted [OF h1 h0, where StringTo = StringTo_bool
        and ToString = "\<lambda>b. if b then ''1'' else ''0''" and def = False and sdef = "''x''" and name = "''flag''" and bdef = False and showLogs = True
        and st = "\<lparr>filename = ''w.conf'', configOptions = [(''flag'', ''1'')], logged = [], opened = []\<rparr>"]
      GetOption_default_or_converted [OF h1 h0, where StringTo = StringTo_bool
        and ToString = "\<lambda>b. if b then ''1'' else ''0''" and def = False and sdef = "''x''" and name = "''missing''" and bdef = True and showLogs = True
        and st = "\<lparr>filename = ''w.conf'', configOptions = [(''flag'', ''1'')], logged = [], opened = []\<rparr>"]
    by simp
qed

section \<open>The parse loop\<close>

lemma loop_body_Ignored: "split_line raw = Ignored \<Longrightarrow> loop_body f raw s = s"
  by (simp add: loop_body_def)

lemma loop_body_Malformed:
  "split_line raw = Malformed \<Longrightarrow>
     loop_body f raw s = s\<lparr>printed := printed s @ [MalformedLine (lineNumber s) f]\<rparr>"
  by (simp add: loop_body_def)

lemma loop_body_fresh:
  "split_line raw = KeyValue k v \<Longrightarrow> map_of (fileConfigs s) k = None \<Longrightarrow>
     loop_body f raw s = s\<lparr>fileConfigs := fileConfigs s @ [(k, v)], count := count s + 1\<rparr>"
  by (simp add: loop_body_def IsDuplicateOption_def emplace_def)

lemma loop_body_duplicate:
  "split_line raw = KeyValue k v \<Longrightarrow> map_of (fileConfigs s) k = Some v0 \<Longrightarrow>
     loop_body f raw s = s\<lparr>printed := printed s @ [DuplicateKey k f]\<rparr>"
  by (simp add: loop_body_def IsDuplicateOption_def)

lemma loop_body_lineNumber: "lineNumber (loop_body f raw s) = lineNumber s"
  by (simp add: loop_body_def IsDuplicateOption_def split: line_kind.splits option.splits)

lemma loop_body_keeps:
  "map_of (fileConfigs s) k = Some v \<Longrightarrow> map_of (fileConfigs (loop_body f raw s)) k = Some v"
  by (auto simp: loop_body_def IsDuplicateOption_def map_of_emplace split: line_kind.splits option.splits)

lemma loop_body_other_key:
  "\<forall>v. split_line raw \<noteq> KeyValue k v \<Longrightarrow>
     map_of (fileConfigs (loop_body f raw s)) k = map_of (fileConfigs s) k"
  by (auto simp: loop_body_def IsDuplicateOption_def map_of_emplace split: line_kind.splits option.splits)

lemma loop_body_no_entry:
  "\<forall>k v. split_line raw \<noteq> KeyValue k v \<Longrightarrow>
     fileConfigs (loop_body f raw s) = fileConfigs s \<and> count (loop_body f raw s) = count s"
  by (auto simp: loop_body_def split: line_kind.splits)

lemma loop_body_printed: "prefix (printed s) (printed (loop_body f raw s))"
  by (auto simp: loop_body_def IsDuplicateOption_def split: line_kind.splits option.splits)

lemma loop_body_inv: "locals_inv s \<Longrightarrow> locals_inv (loop_body f raw s)"
  by (force simp: locals_inv_def loop_body_def IsDuplicateOption_def emplace_def map_of_eq_None_iff
           split: line_kind.splits option.splits)

lemma loop_body_length:
  "length (fileConfigs (loop_body f raw s)) \<le> Suc (length (fileConfigs s))"
  by (auto simp: loop_body_def IsDuplicateOption_def emplace_def split: line_kind.splits option.splits)

lemma parse_loop_completes: "ReadError \<notin> set ls \<Longrightarrow> fst (parse_loop f ls s) = Inr ()"
  by (induction f ls s rule: parse_loop.induct) auto

lemma parse_loop_read_error:
  "ReadError \<notin> set pre \<Longrightarrow>
     fst (parse_loop f (pre @ ReadError # post) s)
       = Inl (LineReadError (lineNumber s + of_nat (length pre) + 1) f)"
  by (induction f pre s rule: parse_loop.induct) (auto simp: loop_body_lineNumber)

lemma parse_loop_keeps:
  "map_of (fileConfigs s) k = Some v \<Longrightarrow> map_of (fileConfigs (snd (parse_loop f ls s))) k = Some v"
  by (induction f ls s rule: parse_loop.induct) (auto simp: loop_body_keeps)

lemma parse_loop_no_entry:
  "\<forall>r k v. Line r \<in> set ls \<longrightarrow> split_line r \<noteq> KeyValue k v \<Longrightarrow>
     fileConfigs (snd (parse_loop f ls s)) = fileConfigs s \<and> count (snd (parse_loop f ls s)) = count s"
  by (induction f ls s rule: parse_loop.induct) (auto simp: loop_body_no_entry)

lemma parse_loop_inv: "locals_inv s \<Longrightarrow> locals_inv (snd (parse_loop f ls s))"
proof (induction f ls s rule: parse_loop.induct)
  case (3 f raw rest s)
  have "locals_inv (s\<lparr>lineNumber := lineNumber s + 1\<rparr>)"
    using 3(2) by (simp add: locals_inv_def)
  then show ?case using 3(1) by (simp add: loop_body_inv)
qed (auto simp: locals_inv_def)

lemma parse_loop_length:
  "length (fileConfigs (snd (parse_loop f ls s))) \<le> length (fileConfigs s) + length ls"
proof (induction f ls s rule: parse_loop.induct)
  case (3 f raw rest s)
  have "length (fileConfigs (loop_body f raw (s\<lparr>lineNumber := lineNumber s + 1\<rparr>)))
          \<le> Suc (length (fileConfigs s))"
    using loop_body_length [of f raw "s\<lparr>lineNumber := lineNumber s + 1\<rparr>"] by simp
  with 3 show ?case by fastforce
qed auto

lemma parse_loop_first_occurrence:
  assumes "ReadError \<notin> set ls" and "i < length ls" and "ls ! i = Line raw"
      and "split_line raw = KeyValue k v"
      and "\<forall>j<i. \<forall>r v'. ls ! j = Line r \<longrightarrow> split_line r \<noteq> KeyValue k v'"
      and "map_of (fileConfigs s) k = None"
  shows "map_of (fileConfigs (snd (parse_loop f ls s))) k = Some v"
  using assms
proof (induction f ls s arbitrary: i rule: parse_loop.induct)
  case (1 f s)
  then show ?case by simp
next
  case (2 f rest s)
  then show ?case by simp
next
  case (3 f r rest s)
  let ?s = "s\<lparr>lineNumber := lineNumber s + 1\<rparr>"
  have step: "parse_loop f (Line r # rest) s = parse_loop f rest (loop_body f r ?s)"
    by simp
  have none: "map_of (fileConfigs ?s) k = None"
    using "3.prems"(6) by simp
  show ?case
  proof (cases i)
    case 0
    with "3.prems"(3) have "r = raw" by simp
    with "3.prems"(4) have "split_line r = KeyValue k v" by simp
    then have "loop_body f r ?s = ?s\<lparr>fileConfigs := fileConfigs ?s @ [(k, v)], count := count ?s + 1\<rparr>"
      using none by (rule loop_body_fresh)
    moreover have "map_of (fileConfigs ?s @ [(k, v)]) k = Some v"
      using none by (simp add: map_add_def)
    ultimately have "map_of (fileConfigs (loop_body f r ?s)) k = Some v"
      by simp
    then show ?thesis
      unfolding step by (rule parse_loop_keeps)
  next
    case (Suc i')
    from "3.prems"(3,5) Suc have "\<forall>v'. split_line r \<noteq> KeyValue k v'"
      by (metis nth_Cons_0 zero_less_Suc)
    then have "map_of (fileConfigs (loop_body f r ?s)) k = map_of (fileConfigs ?s) k"
      by (rule loop_body_other_key)
    with none have abs: "map_of (fileConfigs (loop_body f r ?s)) k = None"
      by (simp only:)
    have a: "ReadError \<notin> set rest" using "3.prems"(1) by simp
    have b: "i' < length rest" using "3.prems"(2) Suc by simp
    have c: "rest ! i' = Line raw" using "3.prems"(3) Suc by simp
    have d: "\<forall>j<i'. \<forall>r' v'. rest ! j = Line r' \<longrightarrow> split_line r' \<noteq> KeyValue k v'"
    proof (intro allI impI)
      fix j r' v'
      assume "j < i'" and "rest ! j = Line r'"
      then have "Suc j < i" and "(Line r # rest) ! Suc j = Line r'" using Suc by simp_all
      with "3.prems"(5) show "split_line r' \<noteq> KeyValue k v'" by blast
    qed
    show ?thesis
      unfolding step by (rule "3.IH" [OF a b c "3.prems"(4) d abs])
  qed
qed

section \<open>Loading a file\<close>

lemma ParseFile_unopened:
  "fs f = None \<Longrightarrow> ParseFile fs f st = (Inl (FileOpenError f), st\<lparr>opened := opened st @ [f]\<rparr>)"
  by (simp add: ParseFile_def)

lemma ParseFile_thrown:
  "fs f = Some ls \<Longrightarrow> parse_loop f ls parse_start = (Inl e, s) \<Longrightarrow>
     ParseFile fs f st = (Inl e, st\<lparr>opened := opened st @ [f], logged := logged st @ printed s\<rparr>)"
  by (simp add: ParseFile_def)

lemma ParseFile_empty:
  "fs f = Some ls \<Longrightarrow> parse_loop f ls parse_start = (Inr u, s) \<Longrightarrow> count s = 0 \<Longrightarrow>
     ParseFile fs f st
       = (Inl (EmptyFileError f), st\<lparr>opened := opened st @ [f], logged := logged st @ printed s\<rparr>)"
  by (simp add: ParseFile_def)

lemma ParseFile_merged:
  "fs f = Some ls \<Longrightarrow> parse_loop f ls parse_start = (Inr u, s) \<Longrightarrow> count s \<noteq> 0 \<Longrightarrow>
     ParseFile fs f st
       = (Inr (), merge_file (fileConfigs s) (st\<lparr>opened := opened st @ [f], logged := logged st @ printed s\<rparr>))"
  by (simp add: ParseFile_def)

lemma LoadFile_thrown:
  "ParseFile fs f st = (Inl e, st') \<Longrightarrow> LoadFile fs f st = (False, st'\<lparr>logged := logged st' @ [LoadError e]\<rparr>)"
  by (simp add: LoadFile_def)

lemma LoadFile_returned:
  "ParseFile fs f st = (Inr u, st') \<Longrightarrow> LoadFile fs f st = (True, st')"
  by (simp add: LoadFile_def)

lemma ParseFile_thrown_table:
  assumes "fst (ParseFile fs f st) = Inl e"
  shows "configOptions (snd (ParseFile fs f st)) = configOptions st"
proof (cases "fs f")
  case None
  then show ?thesis by (simp add: ParseFile_unopened)
next
  case (Some ls)
  obtain r s where ps: "parse_loop f ls parse_start = (r, s)" by (cases "parse_loop f ls parse_start")
  show ?thesis
  proof (cases r)
    case (Inl e')
    with Some ps show ?thesis by (simp add: ParseFile_thrown)
  next
    case (Inr u)
    show ?thesis
    proof (cases "count s = 0")
      case True
      with Some ps Inr show ?thesis by (simp add: ParseFile_empty)
    next
      case False
      with Some ps Inr assms show ?thesis by (simp add: ParseFile_merged)
    qed
  qed
qed

lemma LoadFile_false_iff: "fst (LoadFile fs f st) = False \<longleftrightarrow> (\<exists>e. fst (ParseFile fs f st) = Inl e)"
  by (cases "ParseFile fs f st") (auto simp: LoadFile_def split: sum.splits)

lemma LoadFile_failure_table:
  assumes "fst (ParseFile fs f st) = Inl e"
  shows "LoadFile fs f st
           = (False, (snd (ParseFile fs f st))\<lparr>logged := logged (snd (ParseFile fs f st)) @ [LoadError e]\<rparr>)"
    and "configOptions (snd (LoadFile fs f st)) = configOptions st"
proof -
  obtain st' where p: "ParseFile fs f st = (Inl e, st')"
    using assms by (cases "ParseFile fs f st") simp
  show "LoadFile fs f st
           = (False, (snd (ParseFile fs f st))\<lparr>logged := logged (snd (ParseFile fs f st)) @ [LoadError e]\<rparr>)"
    using p by (simp add: LoadFile_thrown)
  then show "configOptions (snd (LoadFile fs f st)) = configOptions st"
    using ParseFile_thrown_table [OF assms] by simp
qed

lemma ParseFile_read_error:
  assumes "fs f = Some ls" and "ReadError \<in> set ls"
  shows "\<exists>n. fst (ParseFile fs f st) = Inl (LineReadError n f)"
proof -
  obtain pre post where ls: "ls = pre @ ReadError # post" and pre: "ReadError \<notin> set pre"
    using assms(2) by (auto dest: split_list_first)
  obtain r s where ps: "parse_loop f ls parse_start = (r, s)" by (cases "parse_loop f ls parse_start")
  have "r = Inl (LineReadError (lineNumber parse_start + of_nat (length pre) + 1) f)"
    using parse_loop_read_error [OF pre, of f post parse_start] ps ls by simp
  with assms(1) ps show ?thesis by (simp add: ParseFile_thrown)
qed

lemma ParseFile_no_entry:
  assumes "fs f = Some ls" and "ReadError \<notin> set ls"
      and "\<forall>r k v. Line r \<in> set ls \<longrightarrow> split_line r \<noteq> KeyValue k v"
  shows "fst (ParseFile fs f st) = Inl (EmptyFileError f)"
proof -
  obtain r s where ps: "parse_loop f ls parse_start = (r, s)" by (cases "parse_loop f ls parse_start")
  have "r = Inr ()" using parse_loop_completes [OF assms(2), of f parse_start] ps by simp
  moreover have "count s = 0"
    using parse_loop_no_entry [OF assms(3), of f parse_start] ps by (simp add: parse_start_def)
  ultimately show ?thesis using assms(1) ps by (simp add: ParseFile_empty)
qed

text \<open>
  C2: when the parse of a file fails, because the file cannot be opened, because a read
  fails on some line before the end of the stream, or because no line of the file is an
  entry, \<open>LoadFile\<close> returns false, the table is the one before the call, and the
  exception is the last diagnostic logged.
\<close>

theorem LoadFile_failure_keeps_table:
  assumes "fs f = None
           \<or> (\<exists>ls. fs f = Some ls
                 \<and> (ReadError \<in> set ls \<or> (\<forall>r k v. Line r \<in> set ls \<longrightarrow> split_line r \<noteq> KeyValue k v)))"
  shows "fst (LoadFile fs f st) = False
       \<and> configOptions (snd (LoadFile fs f st)) = configOptions st
       \<and> (\<exists>e. fst (ParseFile fs f st) = Inl e \<and> last (logged (snd (LoadFile fs f st))) = LoadError e)"
proof -
  have "\<exists>e. fst (ParseFile fs f st) = Inl e"
  proof (cases "fs f")
    case None
    then show ?thesis by (simp add: ParseFile_unopened)
  next
    case (Some ls)
    show ?thesis
    proof (cases "ReadError \<in> set ls")
      case True
      with Some ParseFile_read_error [of fs f ls st] show ?thesis by blast
    next
      case False
      with Some assms have "\<forall>r k v. Line r \<in> set ls \<longrightarrow> split_line r \<noteq> KeyValue k v" by simp
      with Some False ParseFile_no_entry [of fs f ls st] show ?thesis by blast
    qed
  qed
  then obtain e where e: "fst (ParseFile fs f st) = Inl e" ..
  from LoadFile_failure_table [OF e] e show ?thesis by simp
qed

text \<open>
  C7: a file that is read to its end and has no entry makes \<open>ParseFile\<close> throw the
  empty-file exception and the load fail. After the failed additional load the table is
  the one before the call; after the failed initial load it is empty.
\<close>

theorem empty_file_fails:
  assumes "fs f = Some ls" and "ReadError \<notin> set ls"
      and "\<forall>r k v. Line r \<in> set ls \<longrightarrow> split_line r \<noteq> KeyValue k v"
  shows "fst (ParseFile fs f st) = Inl (EmptyFileError f)
       \<and> fst (LoadFile fs f st) = False
       \<and> fst (LoadAdditionalFile fs f st) = False
       \<and> configOptions (snd (LoadAdditionalFile fs f st)) = configOptions st
       \<and> fst (LoadInitial fs f st) = False
       \<and> configOptions (snd (LoadInitial fs f st)) = []"
proof -
  have e: "fst (ParseFile fs f st') = Inl (EmptyFileError f)" for st'
    using assms by (rule ParseFile_no_entry)
  show ?thesis
    using e LoadFile_failure_table [OF e]
    by (simp add: LoadAdditionalFile_def LoadInitial_def)
qed

lemmas eval_defs = LoadFile_def ParseFile_def parse_start_def loop_body_def split_line_def Trim_def
  isspace_def find_char_def IsDuplicateOption_def emplace_def erase_def AddKey_def Let_def
  example_fs_def example_config_def LoadInitial_def LoadAdditionalFile_def

theorem LoadFile_failure_keeps_table_witness:
  "fst (LoadFile example_fs ''missing.conf'' example_config) = False
   \<and> configOptions (snd (LoadFile example_fs ''missing.conf'' example_config)) = [(''Port'', ''1234'')]
   \<and> fst (LoadFile example_fs ''broken.conf'' example_config) = False
   \<and> configOptions (snd (LoadFile example_fs ''broken.conf'' example_config)) = [(''Port'', ''1234'')]
   \<and> fst (LoadFile example_fs ''comments.conf'' example_config) = False
   \<and> configOptions (snd (LoadFile example_fs ''comments.conf'' example_config)) = [(''Port'', ''1234'')]"
proof -
  have a: "example_fs ''missing.conf'' = None
           \<or> (\<exists>ls. example_fs ''missing.conf'' = Some ls
                 \<and> (ReadError \<in> set ls \<or> (\<forall>r k v. Line r \<in> set ls \<longrightarrow> split_line r \<noteq> KeyValue k v)))"
    by (simp add: example_fs_def)
  have b: "example_fs ''broken.conf'' = None
           \<or> (\<exists>ls. example_fs ''broken.conf'' = Some ls
                 \<and> (ReadError \<in> set ls \<or> (\<forall>r k v. Line r \<in> set ls \<longrightarrow> split_line r \<noteq> KeyValue k v)))"
    by (simp add: example_fs_def)
  have "\<forall>r k v. Line r \<in> set [Line ''# nothing here'', Line ''[Section]'', Line ''novalue'', Line '''']
          \<longrightarrow> split_line r \<noteq> KeyValue k v"
    by (auto simp: split_line_def Trim_def isspace_def find_char_def)
  then have c: "example_fs ''comments.conf'' = None
           \<or> (\<exists>ls. example_fs ''comments.conf'' = Some ls
                 \<and> (ReadError \<in> set ls \<or> (\<forall>r k v. Line r \<in> set ls \<longrightarrow> split_line r \<noteq> KeyValue k v)))"
    by (simp add: example_fs_def)
  have t: "configOptions example_config = [(''Port'', ''1234'')]"
    by (simp add: example_config_def)
  show ?thesis
    using LoadFile_failure_keeps_table [where fs = example_fs and f = "''missing.conf''", OF a, of example_config]
      LoadFile_failure_keeps_table [where fs = example_fs and f = "''broken.conf''", OF b, of example_config]
      LoadFile_failure_keeps_table [where fs = example_fs and f = "''comments.conf''", OF c, of example_config]
    by (simp add: t)
qed

theorem empty_file_fails_witness:
  "fst (ParseFile example_fs ''comments.conf'' example_config) = Inl (EmptyFileError ''comments.conf'')
   \<and> fst (LoadAdditionalFile example_fs ''comments.conf'' example_config) = False
   \<and> configOptions (snd (LoadAdditionalFile example_fs ''comments.conf'' example_config)) = [(''Port'', ''1234'')]
   \<and> fst (LoadInitial example_fs ''comments.conf'' example_config) = False
   \<and> configOptions (snd (LoadInitial example_fs ''comments.conf'' example_config)) = []"
proof -
  let ?ls = "[Line ''# nothing here'', Line ''[Section]'', Line ''novalue'', Line '''']"
  have a: "example_fs ''comments.conf'' = Some ?ls"
    by (simp add: example_fs_def)
  have b: "ReadError \<notin> set ?ls" by simp
  have c: "\<forall>r k v. Line r \<in> set ?ls \<longrightarrow> split_line r \<noteq> KeyValue k v"
    by (auto simp: split_line_def Trim_def isspace_def find_char_def)
  have t: "configOptions example_config = [(''Port'', ''1234'')]"
    by (simp add: example_config_def)
  show ?thesis
    using empty_file_fails [where fs = example_fs and f = "''comments.conf''", OF a b c, of example_config] t by simp
qed

text \<open>
  C1: a line whose last character is the equals sign is not reported as malformed.
  \<open>find\<close> never returns the length of the line, so the second test of the malformed
  check never holds: the line \<open>key=\<close> becomes the entry \<open>key\<close> with the empty value,
  nothing is logged, and a file with that line alone loads.
\<close>

theorem trailing_equals_accepted:
  "split_line ''key='' = KeyValue ''key'' []
   \<and> LoadInitial example_fs ''trailing.conf'' example_config
      = (True, \<lparr>filename = ''world.conf'', configOptions = [(''key'', [])], logged = [],
                 opened = [''trailing.conf'']\<rparr>)"
  by (simp add: eval_defs)

lemma parse_loop_completed_no_error:
  assumes "fst (parse_loop f ls s) = Inr u"
  shows "ReadError \<notin> set ls"
proof
  assume "ReadError \<in> set ls"
  then obtain pre post where "ls = pre @ ReadError # post" and "ReadError \<notin> set pre"
    by (auto dest: split_list_first)
  then have "fst (parse_loop f ls s) = Inl (LineReadError (lineNumber s + of_nat (length pre) + 1) f)"
    by (simp add: parse_loop_read_error)
  with assms show False by simp
qed

lemma locals_inv_start: "locals_inv parse_start"
  by (simp add: locals_inv_def parse_start_def)

lemma LoadFile_true_cases:
  assumes "fs f = Some ls" and "fst (LoadFile fs f st) = True"
  obtains s where "parse_loop f ls parse_start = (Inr (), s)" and "count s \<noteq> 0"
    and "LoadFile fs f st
           = (True, merge_file (fileConfigs s) (st\<lparr>opened := opened st @ [f], logged := logged st @ printed s\<rparr>))"
proof -
  obtain r s where ps: "parse_loop f ls parse_start = (r, s)" by (cases "parse_loop f ls parse_start")
  have r: "r = Inr ()"
  proof (cases r)
    case (Inl e)
    with assms ps show ?thesis by (simp add: ParseFile_thrown LoadFile_def)
  qed simp
  have c: "count s \<noteq> 0"
  proof
    assume "count s = 0"
    with assms ps r show False by (simp add: ParseFile_empty LoadFile_def)
  qed
  from assms(1) ps r c have "LoadFile fs f st
           = (True, merge_file (fileConfigs s) (st\<lparr>opened := opened st @ [f], logged := logged st @ printed s\<rparr>))"
    by (simp add: ParseFile_merged LoadFile_def)
  with ps r c that show ?thesis by blast
qed

lemma LoadFile_first_occurrence:
  assumes "fs f = Some ls" and "fst (LoadFile fs f st) = True"
      and "i < length ls" and "ls ! i = Line raw" and "split_line raw = KeyValue k v"
      and "\<forall>j<i. \<forall>r v'. ls ! j = Line r \<longrightarrow> split_line r \<noteq> KeyValue k v'"
  shows "map_of (configOptions (snd (LoadFile fs f st))) k = Some v"
proof -
  from assms(1,2) obtain s where ps: "parse_loop f ls parse_start = (Inr (), s)"
    and lf: "LoadFile fs f st
           = (True, merge_file (fileConfigs s) (st\<lparr>opened := opened st @ [f], logged := logged st @ printed s\<rparr>))"
    by (rule LoadFile_true_cases)
  have ne: "ReadError \<notin> set ls"
    using ps parse_loop_completed_no_error [of f ls parse_start "()"] by simp
  have none: "map_of (fileConfigs parse_start) k = None" by (simp add: parse_start_def)
  have "map_of (fileConfigs (snd (parse_loop f ls parse_start))) k = Some v"
    using ne assms(3,4,5,6) none by (rule parse_loop_first_occurrence)
  then have m: "map_of (fileConfigs s) k = Some v" using ps by simp
  have "locals_inv (snd (parse_loop f ls parse_start))"
    using locals_inv_start by (rule parse_loop_inv)
  then have d: "distinct (map fst (fileConfigs s))" using ps by (simp add: locals_inv_def)
  show ?thesis unfolding lf snd_conv using d m by (rule merge_present)
qed

text \<open>
  C5: when file A and then file B load and both define the key \<open>k\<close>, the table maps
  \<open>k\<close> to A's value after the first load and to B's value after the second. For a key
  the table already holds, \<open>AddKey\<close> with replace true maps it to the new value and
  leaves every other key as it was; with replace false it logs that the option exists,
  with the value the table holds, and changes nothing else.
\<close>

theorem later_load_replaces:
  assumes "fs a = Some la" and "fst (LoadFile fs a st) = True"
      and "i < length la" and "la ! i = Line ra" and "split_line ra = KeyValue k va"
      and "\<forall>h<i. \<forall>r v'. la ! h = Line r \<longrightarrow> split_line r \<noteq> KeyValue k v'"
      and "fs b = Some lb" and "fst (LoadFile fs b (snd (LoadFile fs a st))) = True"
      and "j < length lb" and "lb ! j = Line rb" and "split_line rb = KeyValue k vb"
      and "\<forall>h<j. \<forall>r v'. lb ! h = Line r \<longrightarrow> split_line r \<noteq> KeyValue k v'"
  shows "map_of (configOptions (snd (LoadFile fs a st))) k = Some va
       \<and> map_of (configOptions (snd (LoadFile fs b (snd (LoadFile fs a st))))) k = Some vb
       \<and> (\<forall>t old v. map_of (configOptions t) k = Some old \<longrightarrow>
             map_of (configOptions (AddKey k v True t)) k = Some v
           \<and> (\<forall>k'. k' \<noteq> k \<longrightarrow> map_of (configOptions (AddKey k v True t)) k' = map_of (configOptions t) k')
           \<and> AddKey k v False t = t\<lparr>logged := logged t @ [OptionExists k old]\<rparr>
           \<and> configOptions (AddKey k v False t) = configOptions t)"
proof -
  have A: "map_of (configOptions (snd (LoadFile fs a st))) k = Some va"
    using assms(1-6) by (rule LoadFile_first_occurrence)
  have B: "map_of (configOptions (snd (LoadFile fs b (snd (LoadFile fs a st))))) k = Some vb"
    using assms(7-12) by (rule LoadFile_first_occurrence)
  have C: "map_of (configOptions (AddKey k v True t)) k = Some v
           \<and> (\<forall>k'. k' \<noteq> k \<longrightarrow> map_of (configOptions (AddKey k v True t)) k' = map_of (configOptions t) k')
           \<and> AddKey k v False t = t\<lparr>logged := logged t @ [OptionExists k old]\<rparr>
           \<and> configOptions (AddKey k v False t) = configOptions t"
    if "map_of (configOptions t) k = Some old" for t old v
    using that by (simp add: AddKey_replace_lookup) (simp add: AddKey_def)
  from A B C show ?thesis by blast
qed

theorem later_load_replaces_witness:
  "map_of (configOptions (snd (LoadFile example_fs ''world.conf.dist'' example_config))) ''Port'' = Some ''8085''
   \<and> map_of (configOptions (snd (LoadFile example_fs ''extra.conf''
        (snd (LoadFile example_fs ''world.conf.dist'' example_config))))) ''Port'' = Some ''9000''
   \<and> AddKey ''Port'' ''7'' False example_config
        = example_config\<lparr>logged := logged example_config @ [OptionExists ''Port'' ''1234'']\<rparr>
   \<and> map_of (configOptions (AddKey ''Port'' ''7'' True example_config)) ''Port'' = Some ''7''"
proof -
  let ?la = "[Line ''# comment'', Line ''[Section]'', Line ''Port = 8085'',
              Line ''Name = \"MyServer\"   # trailing comment'', Line ''Port = 9000'', Line '''']"
  let ?lb = "[Line ''Port = 9000'', Line ''  Motd =  hello \"world\"  '', Line '''']"
  have a1: "example_fs ''world.conf.dist'' = Some ?la" by (simp add: example_fs_def)
  have a2: "fst (LoadFile example_fs ''world.conf.dist'' example_config) = True"
    by (simp add: eval_defs)
  have a3: "2 < length ?la" by simp
  have a4: "?la ! 2 = Line ''Port = 8085''" by simp
  have a5: "split_line ''Port = 8085'' = KeyValue ''Port'' ''8085''"
    by (simp add: split_line_def Trim_def isspace_def find_char_def)
  have a6: "\<forall>h<2. \<forall>r v'. ?la ! h = Line r \<longrightarrow> split_line r \<noteq> KeyValue ''Port'' v'"
    by (auto simp: less_Suc_eq numeral_2_eq_2 split_line_def Trim_def isspace_def find_char_def)
  have b1: "example_fs ''extra.conf'' = Some ?lb" by (simp add: example_fs_def)
  have b2: "fst (LoadFile example_fs ''extra.conf''
              (snd (LoadFile example_fs ''world.conf.dist'' example_config))) = True"
    by (simp add: eval_defs)
  have b3: "0 < length ?lb" by simp
  have b4: "?lb ! 0 = Line ''Port = 9000''" by simp
  have b5: "split_line ''Port = 9000'' = KeyValue ''Port'' ''9000''"
    by (simp add: split_line_def Trim_def isspace_def find_char_def)
  have b6: "\<forall>h<0. \<forall>r v'. ?lb ! h = Line r \<longrightarrow> split_line r \<noteq> KeyValue ''Port'' v'"
    by simp
  have p: "map_of (configOptions example_config) ''Port'' = Some ''1234''"
    by (simp add: example_config_def)
  from later_load_replaces [where fs = example_fs and a = "''world.conf.dist''" and b = "''extra.conf''"
      and st = example_config, OF a1 a2 a3 a4 a5 a6 b1 b2 b3 b4 b5 b6] p
  show ?thesis by blast
qed

section \<open>Well-formed lines\<close>

lemma dropWhile_mid: "\<not> P c \<Longrightarrow> dropWhile P (xs @ c # ys) = dropWhile P xs @ c # ys"
  by (induction xs) auto

lemma strip_commute:
  "dropWhile P (rev (dropWhile P (rev xs))) = rev (dropWhile P (rev (dropWhile P xs)))"
  by (induction xs) (auto simp: dropWhile_append dest: set_dropWhileD)

lemma Trim_mid:
  "\<not> isspace c \<Longrightarrow> Trim (k @ c # v) = dropWhile isspace k @ c # rev (dropWhile isspace (rev v))"
  by (simp add: Trim_def dropWhile_mid)

lemma Trim_front: "Trim (dropWhile isspace k) = Trim k"
  by (simp add: Trim_def)

lemma Trim_back: "Trim (rev (dropWhile isspace (rev v))) = Trim v"
proof -
  have "Trim (rev (dropWhile isspace (rev v)))
          = rev (dropWhile isspace (rev (rev (dropWhile isspace (rev (dropWhile isspace v))))))"
    unfolding Trim_def by (simp only: strip_commute)
  also have "\<dots> = Trim v" by (simp add: Trim_def)
  finally show ?thesis .
qed

lemma find_char_None: "c \<notin> set s \<Longrightarrow> find_char c s = None"
  by (simp add: find_char_def)

lemma find_char_mid: "c \<notin> set xs \<Longrightarrow> find_char c (xs @ c # ys) = Some (length xs)"
  by (induction xs) (auto simp: find_char_def)

lemma split_line_shape:
  assumes t: "Trim raw = k1 @ CHR ''='' # w @ c"
      and k1: "CHR ''='' \<notin> set k1" "CHR ''#'' \<notin> set k1"
      and w: "CHR ''#'' \<notin> set w"
      and c: "c = [] \<or> (\<exists>t. c = CHR ''#'' # t)"
      and h: "hd (Trim raw) \<noteq> CHR ''[''"
  shows "split_line raw = KeyValue (Trim k1) (filter (\<lambda>x. x \<noteq> CHR 0x22) (Trim w))"
proof -
  let ?line = "k1 @ CHR ''='' # w"
  have ne: "Trim raw \<noteq> []" using t by simp
  have "hd (Trim raw) \<in> set ?line"
    using t by (cases k1) auto
  then have h2: "hd (Trim raw) \<noteq> CHR ''#''" using k1 w by auto
  have cut: "(case find_char CHR ''#'' (Trim raw) of Some found \<Rightarrow> take found (Trim raw) | None \<Rightarrow> Trim raw) = ?line"
  proof (cases "c = []")
    case True
    then have "CHR ''#'' \<notin> set (Trim raw)" using t k1 w by simp
    then show ?thesis using t True by (simp add: find_char_None)
  next
    case False
    with c obtain u where u: "c = CHR ''#'' # u" by blast
    have "CHR ''#'' \<notin> set ?line" using k1 w by simp
    then have "find_char CHR ''#'' (?line @ CHR ''#'' # u) = Some (length ?line)"
      by (rule find_char_mid)
    then show ?thesis using t u by simp
  qed
  have eq: "find_char CHR ''='' ?line = Some (length k1)"
    using k1(1) by (rule find_char_mid)
  show ?thesis
    unfolding split_line_def Let_def using ne h h2 by (simp add: cut eq)
qed

lemma split_line_entry:
  assumes k: "CHR ''='' \<notin> set k" "CHR ''#'' \<notin> set k"
      and v: "CHR ''#'' \<notin> set v"
      and c: "c = [] \<or> (\<exists>t. c = CHR ''#'' # t)"
      and h: "hd (Trim (k @ ''='' @ v @ c)) \<noteq> CHR ''[''"
  shows "split_line (k @ ''='' @ v @ c) = KeyValue (Trim k) (filter (\<lambda>x. x \<noteq> CHR 0x22) (Trim v))"
proof -
  let ?k1 = "dropWhile isspace k"
  have sp: "\<not> isspace CHR ''=''" "\<not> isspace CHR ''#''" by (simp_all add: isspace_def)
  have k1: "CHR ''='' \<notin> set ?k1" "CHR ''#'' \<notin> set ?k1"
    using k by (auto dest: set_dropWhileD)
  show ?thesis
  proof (cases "c = []")
    case True
    let ?w = "rev (dropWhile isspace (rev v))"
    have t: "Trim (k @ ''='' @ v @ c) = ?k1 @ CHR ''='' # ?w @ []"
      using True sp(1) by (simp add: Trim_mid)
    have w: "CHR ''#'' \<notin> set ?w" using v by (auto dest: set_dropWhileD)
    have "split_line (k @ ''='' @ v @ c) = KeyValue (Trim ?k1) (filter (\<lambda>x. x \<noteq> CHR 0x22) (Trim ?w))"
      using t k1 w _ h by (rule split_line_shape) simp
    then show ?thesis by (simp only: Trim_front Trim_back)
  next
    case False
    with c obtain u where u: "c = CHR ''#'' # u" by blast
    let ?c = "CHR ''#'' # rev (dropWhile isspace (rev u))"
    have "rev (dropWhile isspace (rev (v @ CHR ''#'' # u))) = v @ ?c"
      using sp(2) by (simp add: dropWhile_mid)
    then have t: "Trim (k @ ''='' @ v @ c) = ?k1 @ CHR ''='' # v @ ?c"
      using u sp(1) Trim_mid [of "CHR ''=''" k "v @ CHR ''#'' # u"] by simp
    have "split_line (k @ ''='' @ v @ c) = KeyValue (Trim ?k1) (filter (\<lambda>x. x \<noteq> CHR 0x22) (Trim v))"
      using t k1 v _ h by (rule split_line_shape) simp
    then show ?thesis by (simp only: Trim_front)
  qed
qed

text \<open>
  C3: take a file that loads, and in it a line \<open>key = value\<close>, possibly followed by a
  comment that starts with the number sign: the key has no equals sign, neither key nor
  value has a number sign, and the trimmed line does not start with an opening bracket. If
  no earlier line of the file is an entry for the same trimmed key, the table afterwards
  maps the trimmed key to the trimmed value with every double quote removed.
\<close>

theorem well_formed_line_loaded:
  assumes "fs f = Some ls" and "fst (LoadFile fs f st) = True"
      and "i < length ls" and "ls ! i = Line (k @ ''='' @ v @ c)"
      and "CHR ''='' \<notin> set k" and "CHR ''#'' \<notin> set k" and "CHR ''#'' \<notin> set v"
      and "c = [] \<or> (\<exists>t. c = CHR ''#'' # t)"
      and "hd (Trim (k @ ''='' @ v @ c)) \<noteq> CHR ''[''"
      and "\<forall>j<i. \<forall>r v'. ls ! j = Line r \<longrightarrow> split_line r \<noteq> KeyValue (Trim k) v'"
  shows "map_of (configOptions (snd (LoadFile fs f st))) (Trim k)
           = Some (filter (\<lambda>x. x \<noteq> CHR 0x22) (Trim v))"
proof -
  have "split_line (k @ ''='' @ v @ c) = KeyValue (Trim k) (filter (\<lambda>x. x \<noteq> CHR 0x22) (Trim v))"
    using assms(5-9) by (rule split_line_entry)
  with assms(1-4) show ?thesis
    using assms(10) by (rule LoadFile_first_occurrence)
qed

theorem well_formed_line_loaded_witness:
  "map_of (configOptions (snd (LoadFile example_fs ''world.conf.dist'' example_config))) ''Name''
     = Some ''MyServer''"
proof -
  let ?la = "[Line ''# comment'', Line ''[Section]'', Line ''Port = 8085'',
              Line ''Name = \"MyServer\"   # trailing comment'', Line ''Port = 9000'', Line '''']"
  let ?k = "''Name ''"
  let ?v = "'' \"MyServer\"   ''"
  let ?c = "''# trailing comment''"
  have a1: "example_fs ''world.conf.dist'' = Some ?la" by (simp add: example_fs_def)
  have a2: "fst (LoadFile example_fs ''world.conf.dist'' example_config) = True"
    by (simp add: eval_defs)
  have a3: "3 < length ?la" by simp
  have a4: "?la ! 3 = Line (?k @ ''='' @ ?v @ ?c)" by simp
  have a5: "CHR ''='' \<notin> set ?k" by simp
  have a6: "CHR ''#'' \<notin> set ?k" by simp
  have a7: "CHR ''#'' \<notin> set ?v" by simp
  have a8: "?c = [] \<or> (\<exists>t. ?c = CHR ''#'' # t)" by simp
  have a9: "hd (Trim (?k @ ''='' @ ?v @ ?c)) \<noteq> CHR ''[''"
    by (simp add: Trim_def isspace_def)
  have tk: "Trim ?k = ''Name''" by (simp add: Trim_def isspace_def)
  have tv: "filter (\<lambda>x. x \<noteq> CHR 0x22) (Trim ?v) = ''MyServer''" by (simp add: Trim_def isspace_def)
  have a10: "\<forall>j<3. \<forall>r v'. ?la ! j = Line r \<longrightarrow> split_line r \<noteq> KeyValue (Trim ?k) v'"
    by (auto simp: less_Suc_eq numeral_3_eq_3 split_line_def Trim_def isspace_def find_char_def)
  from well_formed_line_loaded [where fs = example_fs and f = "''world.conf.dist''" and st = example_config,
      OF a1 a2 a3 a4 a5 a6 a7 a8 a9 a10]
  show ?thesis by (simp only: tk tv)
qed

section \<open>Duplicate keys\<close>

lemma erase_absent: "map_of m k = None \<Longrightarrow> erase k m = m"
  by (induction m) (auto simp: erase_def split: if_splits)

lemma AddKey_table: "configOptions (AddKey k v True st) = emplace k v (erase k (configOptions st))"
  by (simp add: AddKey_def erase_absent split: option.splits)

lemma merge_table_only:
  "configOptions st1 = configOptions st2 \<Longrightarrow>
     configOptions (merge_file xs st1) = configOptions (merge_file xs st2)"
proof (induction xs arbitrary: st1 st2)
  case Nil
  then show ?case by simp
next
  case (Cons p xs)
  obtain a b where p: "p = (a, b)" by (cases p)
  have "configOptions (AddKey a b True st1) = configOptions (AddKey a b True st2)"
    using Cons.prems by (simp add: AddKey_table)
  then have "configOptions (merge_file xs (AddKey a b True st1)) = configOptions (merge_file xs (AddKey a b True st2))"
    by (rule Cons.IH)
  then show ?case using p by simp
qed

lemma loop_body_same_core: "same_core s t \<Longrightarrow> same_core (loop_body f raw s) (loop_body f raw t)"
  by (auto simp: same_core_def loop_body_def IsDuplicateOption_def split: line_kind.splits option.splits)

lemma parse_loop_same_core:
  "same_core s t \<Longrightarrow>
     fst (parse_loop f ls s) = fst (parse_loop f ls t)
     \<and> same_core (snd (parse_loop f ls s)) (snd (parse_loop f ls t))"
proof (induction f ls s arbitrary: t rule: parse_loop.induct)
  case (1 f s)
  then show ?case by simp
next
  case (2 f rest s)
  then show ?case by (simp add: same_core_def)
next
  case (3 f raw rest s)
  have "same_core (s\<lparr>lineNumber := lineNumber s + 1\<rparr>) (t\<lparr>lineNumber := lineNumber t + 1\<rparr>)"
    using "3.prems" by (simp add: same_core_def)
  then have "same_core (loop_body f raw (s\<lparr>lineNumber := lineNumber s + 1\<rparr>))
                       (loop_body f raw (t\<lparr>lineNumber := lineNumber t + 1\<rparr>))"
    by (rule loop_body_same_core)
  then show ?case using "3.IH" by simp
qed

lemma parse_loop_append:
  "ReadError \<notin> set xs \<Longrightarrow> parse_loop f (xs @ ys) s = parse_loop f ys (snd (parse_loop f xs s))"
  by (induction f xs s rule: parse_loop.induct) auto

lemma parse_loop_printed: "set (printed s) \<subseteq> set (printed (snd (parse_loop f ls s)))"
proof (induction f ls s rule: parse_loop.induct)
  case (3 f raw rest s)
  have "set (printed s) \<subseteq> set (printed (loop_body f raw (s\<lparr>lineNumber := lineNumber s + 1\<rparr>)))"
    using loop_body_printed [of "s\<lparr>lineNumber := lineNumber s + 1\<rparr>" f raw]
    by (auto dest: set_mono_prefix)
  with 3 show ?case by auto
qed auto

lemma split_line_blank: "split_line [] = Ignored"
  by (simp add: split_line_def Trim_def)

lemma LoadFile_same_core:
  assumes "fs f = Some ls" and "fs' f = Some ls'"
      and "fst (parse_loop f ls parse_start) = fst (parse_loop f ls' parse_start)"
      and "same_core (snd (parse_loop f ls parse_start)) (snd (parse_loop f ls' parse_start))"
  shows "fst (LoadFile fs f st) = fst (LoadFile fs' f st)
       \<and> configOptions (snd (LoadFile fs f st)) = configOptions (snd (LoadFile fs' f st))"
proof -
  obtain r s where ps: "parse_loop f ls parse_start = (r, s)" by (cases "parse_loop f ls parse_start")
  obtain r' s' where ps': "parse_loop f ls' parse_start = (r', s')" by (cases "parse_loop f ls' parse_start")
  from assms(3,4) ps ps' have r: "r' = r" and c: "count s' = count s" and fc: "fileConfigs s' = fileConfigs s"
    by (simp_all add: same_core_def)
  show ?thesis
  proof (cases r)
    case (Inl e)
    with assms(1,2) ps ps' r show ?thesis by (simp add: ParseFile_thrown LoadFile_def)
  next
    case (Inr u)
    show ?thesis
    proof (cases "count s = 0")
      case True
      with assms(1,2) ps ps' r c Inr show ?thesis by (simp add: ParseFile_empty LoadFile_def)
    next
      case False
      have "configOptions (merge_file (fileConfigs s) (st\<lparr>opened := opened st @ [f], logged := logged st @ printed s\<rparr>))
          = configOptions (merge_file (fileConfigs s) (st\<lparr>opened := opened st @ [f], logged := logged st @ printed s'\<rparr>))"
        by (rule merge_table_only) simp
      with assms(1,2) ps ps' r c fc Inr False show ?thesis by (simp add: ParseFile_merged LoadFile_def)
    qed
  qed
qed

lemma duplicate_line_dropped:
  assumes ne: "ReadError \<notin> set ls"
      and ij: "i < j" "j < length ls"
      and li: "ls ! i = Line ri" "split_line ri = KeyValue k v"
      and first: "\<forall>h<i. \<forall>r v'. ls ! h = Line r \<longrightarrow> split_line r \<noteq> KeyValue k v'"
      and lj: "ls ! j = Line rj" "split_line rj = KeyValue k v'"
  shows "fst (parse_loop f ls parse_start) = fst (parse_loop f (ls[j := Line []]) parse_start)"
    and "same_core (snd (parse_loop f ls parse_start)) (snd (parse_loop f (ls[j := Line []]) parse_start))"
    and "DuplicateKey k f \<in> set (printed (snd (parse_loop f ls parse_start)))"
proof -
  let ?pre = "take j ls" and ?post = "drop (Suc j) ls"
  let ?s1 = "snd (parse_loop f ?pre parse_start)"
  let ?s1' = "?s1\<lparr>lineNumber := lineNumber ?s1 + 1\<rparr>"
  have ls: "ls = ?pre @ Line rj # ?post"
    using ij(2) lj(1) by (metis id_take_nth_drop)
  have bl: "ls[j := Line []] = ?pre @ Line [] # ?post"
    using ij(2) by (rule upd_conv_take_nth_drop)
  have npre: "ReadError \<notin> set ?pre" using ne by (auto dest: in_set_takeD)
  have a: "parse_loop f ls parse_start = parse_loop f ?post (loop_body f rj ?s1')"
    using parse_loop_append [OF npre, of f "Line rj # ?post" parse_start] ls by simp
  have b: "parse_loop f (ls[j := Line []]) parse_start = parse_loop f ?post (loop_body f [] ?s1')"
    using parse_loop_append [OF npre, of f "Line [] # ?post" parse_start] bl by simp
  have p1: "i < length ?pre" using ij by simp
  have p2: "?pre ! i = Line ri" using ij li(1) by simp
  have p3: "\<forall>h<i. \<forall>r v'. ?pre ! h = Line r \<longrightarrow> split_line r \<noteq> KeyValue k v'"
    using first ij by simp
  have p4: "map_of (fileConfigs parse_start) k = None" by (simp add: parse_start_def)
  have "map_of (fileConfigs ?s1) k = Some v"
    using npre p1 p2 li(2) p3 p4 by (rule parse_loop_first_occurrence)
  then have "map_of (fileConfigs ?s1') k = Some v" by simp
  with lj(2) have dup: "loop_body f rj ?s1' = ?s1'\<lparr>printed := printed ?s1' @ [DuplicateKey k f]\<rparr>"
    by (rule loop_body_duplicate)
  have blank: "loop_body f [] ?s1' = ?s1'"
    using split_line_blank by (rule loop_body_Ignored)
  have sc: "same_core (loop_body f rj ?s1') (loop_body f [] ?s1')"
    unfolding dup blank by (simp add: same_core_def)
  from parse_loop_same_core [OF sc, of f ?post]
  show "fst (parse_loop f ls parse_start) = fst (parse_loop f (ls[j := Line []]) parse_start)"
    and "same_core (snd (parse_loop f ls parse_start)) (snd (parse_loop f (ls[j := Line []]) parse_start))"
    unfolding a b by simp_all
  have "DuplicateKey k f \<in> set (printed (loop_body f rj ?s1'))"
    unfolding dup by simp
  then show "DuplicateKey k f \<in> set (printed (snd (parse_loop f ls parse_start)))"
    unfolding a using parse_loop_printed [of "loop_body f rj ?s1'" f ?post] by blast
qed

text \<open>
  C4: take a file that is read to its end, in which line \<open>i\<close> is the first entry for the
  key \<open>k\<close> and a later line \<open>j\<close> is an entry for \<open>k\<close> too. The loop completes, the
  file-local mapping holds the value of line \<open>i\<close> for \<open>k\<close>, and a duplicate-key
  diagnostic for \<open>k\<close> is printed. Line \<open>j\<close> is dropped: the mapping, the counter, the
  result of the load and the table after it are those of the same file with line \<open>j\<close>
  empty. A file of fewer than \<open>2 ^ 32\<close> lines loads, and the table then holds the
  value of line \<open>i\<close>.
\<close>

theorem duplicate_key_first_wins:
  assumes "fs f = Some ls" and "ReadError \<notin> set ls"
      and "i < j" and "j < length ls"
      and "ls ! i = Line ri" and "split_line ri = KeyValue k v"
      and "\<forall>h<i. \<forall>r v'. ls ! h = Line r \<longrightarrow> split_line r \<noteq> KeyValue k v'"
      and "ls ! j = Line rj" and "split_line rj = KeyValue k v'"
  shows "fst (parse_loop f ls parse_start) = Inr ()
       \<and> map_of (fileConfigs (snd (parse_loop f ls parse_start))) k = Some v
       \<and> DuplicateKey k f \<in> set (printed (snd (parse_loop f ls parse_start)))
       \<and> fileConfigs (snd (parse_loop f ls parse_start))
           = fileConfigs (snd (parse_loop f (ls[j := Line []]) parse_start))
       \<and> count (snd (parse_loop f ls parse_start))
           = count (snd (parse_loop f (ls[j := Line []]) parse_start))
       \<and> fst (LoadFile fs f st) = fst (LoadFile (fs(f \<mapsto> ls[j := Line []])) f st)
       \<and> configOptions (snd (LoadFile fs f st))
           = configOptions (snd (LoadFile (fs(f \<mapsto> ls[j := Line []])) f st))
       \<and> (length ls < 2 ^ 32 \<longrightarrow>
            fst (LoadFile fs f st) = True
          \<and> map_of (configOptions (snd (LoadFile fs f st))) k = Some v)"
proof -
  let ?s = "snd (parse_loop f ls parse_start)"
  let ?bl = "ls[j := Line []]"
  have fin: "fst (parse_loop f ls parse_start) = Inr ()"
    using assms(2) by (rule parse_loop_completes)
  have il: "i < length ls" using assms(3,4) by simp
  have none: "map_of (fileConfigs parse_start) k = None" by (simp add: parse_start_def)
  have kept: "map_of (fileConfigs ?s) k = Some v"
    using assms(2) il assms(5,6,7) none by (rule parse_loop_first_occurrence)
  note d = duplicate_line_dropped [OF assms(2-9), of f]
  have core: "fileConfigs ?s = fileConfigs (snd (parse_loop f ?bl parse_start))"
             "count ?s = count (snd (parse_loop f ?bl parse_start))"
    using d(2) by (simp_all add: same_core_def)
  have "(fs(f \<mapsto> ?bl)) f = Some ?bl" by simp
  with assms(1) have same: "fst (LoadFile fs f st) = fst (LoadFile (fs(f \<mapsto> ?bl)) f st)
       \<and> configOptions (snd (LoadFile fs f st)) = configOptions (snd (LoadFile (fs(f \<mapsto> ?bl)) f st))"
    using d(1,2) by (rule LoadFile_same_core)
  have loads: "fst (LoadFile fs f st) = True \<and> map_of (configOptions (snd (LoadFile fs f st))) k = Some v"
    if short: "length ls < 2 ^ 32"
  proof -
    obtain r s where ps: "parse_loop f ls parse_start = (r, s)" by (cases "parse_loop f ls parse_start")
    with fin have r: "r = Inr ()" by simp
    have inv: "locals_inv s"
      using parse_loop_inv [OF locals_inv_start, of f ls] ps by simp
    have "fileConfigs s \<noteq> []" using kept ps by auto
    then have pos: "0 < length (fileConfigs s)" by simp
    have "length (fileConfigs s) \<le> length ls"
      using parse_loop_length [of f ls parse_start] ps by (simp add: parse_start_def)
    with short have "length (fileConfigs s) < 2 ^ LENGTH(32)" by simp
    with pos have "(of_nat (length (fileConfigs s)) :: 32 word) \<noteq> 0" by (rule of_nat_neq_0)
    with inv have c: "count s \<noteq> 0" by (simp add: locals_inv_def)
    have lf: "LoadFile fs f st
           = (True, merge_file (fileConfigs s) (st\<lparr>opened := opened st @ [f], logged := logged st @ printed s\<rparr>))"
      using assms(1) ps r c by (simp add: ParseFile_merged LoadFile_def)
    have "distinct (map fst (fileConfigs s))" using inv by (simp add: locals_inv_def)
    moreover have "map_of (fileConfigs s) k = Some v" using kept ps by simp
    ultimately have "map_of (configOptions (snd (LoadFile fs f st))) k = Some v"
      unfolding lf snd_conv by (rule merge_present)
    with lf show ?thesis by simp
  qed
  from fin kept d(3) core same loads show ?thesis by blast
qed

theorem duplicate_key_first_wins_witness:
  "fst (parse_loop ''world.conf.dist''
          [Line ''# comment'', Line ''[Section]'', Line ''Port = 8085'',
           Line ''Name = \"MyServer\"   # trailing comment'', Line ''Port = 9000'', Line '''']
          parse_start) = Inr ()
   \<and> DuplicateKey ''Port'' ''world.conf.dist''
       \<in> set (printed (snd (parse_loop ''world.conf.dist''
          [Line ''# comment'', Line ''[Section]'', Line ''Port = 8085'',
           Line ''Name = \"MyServer\"   # trailing comment'', Line ''Port = 9000'', Line '''']
          parse_start)))
   \<and> fst (LoadFile example_fs ''world.conf.dist'' example_config) = True
   \<and> map_of (configOptions (snd (LoadFile example_fs ''world.conf.dist'' example_config))) ''Port''
       = Some ''8085''"
proof -
  let ?la = "[Line ''# comment'', Line ''[Section]'', Line ''Port = 8085'',
              Line ''Name = \"MyServer\"   # trailing comment'', Line ''Port = 9000'', Line '''']"
  have a1: "example_fs ''world.conf.dist'' = Some ?la" by (simp add: example_fs_def)
  have a2: "ReadError \<notin> set ?la" by simp
  have a3: "(2::nat) < 4" by simp
  have a4: "4 < length ?la" by simp
  have a5: "?la ! 2 = Line ''Port = 8085''" by simp
  have a6: "split_line ''Port = 8085'' = KeyValue ''Port'' ''8085''"
    by (simp add: split_line_def Trim_def isspace_def find_char_def)
  have a7: "\<forall>h<2. \<forall>r v'. ?la ! h = Line r \<longrightarrow> split_line r \<noteq> KeyValue ''Port'' v'"
    by (auto simp: less_Suc_eq numeral_2_eq_2 split_line_def Trim_def isspace_def find_char_def)
  have a8: "?la ! 4 = Line ''Port = 9000''" by simp
  have a9: "split_line ''Port = 9000'' = KeyValue ''Port'' ''9000''"
    by (simp add: split_line_def Trim_def isspace_def find_char_def)
  have short: "length ?la < 2 ^ 32" by simp
  from duplicate_key_first_wins [where fs = example_fs and f = "''world.conf.dist''" and st = example_config,
      OF a1 a2 a3 a4 a5 a6 a7 a8 a9] short
  show ?thesis by blast
qed

section \<open>Lines without an equals sign\<close>

text \<open>
  The first test of the malformed-line check does what it says: a line that is not
  ignored and has no equals sign is reported with the current line number, and neither
  the file-local mapping nor the counter changes.
\<close>

lemma set_Trim: "set (Trim s) \<subseteq> set s"
proof
  fix x
  assume "x \<in> set (Trim s)"
  then have "x \<in> set (dropWhile isspace (rev (dropWhile isspace s)))"
    by (simp add: Trim_def)
  then have "x \<in> set (rev (dropWhile isspace s))" by (rule set_dropWhileD)
  then have "x \<in> set (dropWhile isspace s)" by simp
  then show "x \<in> set s" by (rule set_dropWhileD)
qed

lemma no_equals_line_skipped:
  assumes "CHR ''='' \<notin> set raw" and "Trim raw \<noteq> []"
      and "hd (Trim raw) \<noteq> CHR ''#''" and "hd (Trim raw) \<noteq> CHR ''[''"
  shows "loop_body f raw s = s\<lparr>printed := printed s @ [MalformedLine (lineNumber s) f]\<rparr>"
proof -
  have t: "CHR ''='' \<notin> set (Trim raw)" using assms(1) set_Trim by blast
  then have "CHR ''='' \<notin> set (take n (Trim raw))" for n by (auto dest: in_set_takeD)
  with t have "find_char CHR ''=''
      (case find_char CHR ''#'' (Trim raw) of Some found \<Rightarrow> take found (Trim raw) | None \<Rightarrow> Trim raw) = None"
    by (simp add: find_char_None split: option.splits)
  then have "split_line raw = Malformed"
    using assms(2-4) by (simp add: split_line_def Let_def)
  then show ?thesis by (rule loop_body_Malformed)
qed

end
